theory Spec2Isabelle
  imports Main "HOL-Library.Sublist"
begin

section \<open>JavaScript strings and regular expressions\<close>

text \<open>
  The program is \<^verbatim>\<open>src/js/app.js\<close>. Its core is string rewriting, so a JavaScript
  string is modelled as a \<^typ>\<open>string\<close>: a list of code units, restricted to the units
  \<open>0..255\<close> (ASCII and Latin-1) that \<^typ>\<open>char\<close> offers. Every pattern of the program is
  ASCII, and on this range no character changes into or out of ASCII under
  \<^verbatim>\<open>toLowerCase\<close> or under the canonicalisation of the \<^verbatim>\<open>i\<close> flag.
\<close>

definition is_digit :: "char \<Rightarrow> bool" where
  \<comment> \<open>the class \<^verbatim>\<open>\d\<close>\<close>
  "is_digit c \<longleftrightarrow> c \<in> set ''0123456789''"

definition is_space :: "char \<Rightarrow> bool" where
  \<comment> \<open>the class \<^verbatim>\<open>\s\<close>, also the characters \<^verbatim>\<open>trim\<close> removes: tab, LF, VT, FF, CR,
      space and the no-break space\<close>
  "is_space c \<longleftrightarrow> c \<in> {CHR 0x09, CHR 0x0A, CHR 0x0B, CHR 0x0C, CHR 0x0D, CHR 0x20, CHR 0xA0}"

definition is_line_terminator :: "char \<Rightarrow> bool" where
  \<comment> \<open>what the regular expression \<^verbatim>\<open>.\<close> does not match\<close>
  "is_line_terminator c \<longleftrightarrow> c \<in> {CHR 0x0A, CHR 0x0D}"

definition toLowerCase_char :: "char \<Rightarrow> char" where
  "toLowerCase_char c =
     (let n = (of_char c :: nat)
      in if (65 \<le> n \<and> n \<le> 90) \<or> (192 \<le> n \<and> n \<le> 222 \<and> n \<noteq> 215)
         then char_of (n + 32) else c)"

definition toLowerCase :: "string \<Rightarrow> string" where
  "toLowerCase s = map toLowerCase_char s"

definition canonicalize :: "char \<Rightarrow> char" where
  \<comment> \<open>the \<^verbatim>\<open>i\<close> flag compares the upper-case forms of single code units; the three
      Latin-1 letters whose upper-case form is outside Latin-1 or longer than one unit
      (0xB5, 0xDF, 0xFF) are equal to themselves only\<close>
  "canonicalize c =
     (let n = (of_char c :: nat)
      in if (97 \<le> n \<and> n \<le> 122) \<or> (224 \<le> n \<and> n \<le> 254 \<and> n \<noteq> 247)
         then char_of (n - 32) else c)"

definition startsWith :: "string \<Rightarrow> string \<Rightarrow> bool" where
  "startsWith s p \<longleftrightarrow> prefix p s"

definition endsWith :: "string \<Rightarrow> string \<Rightarrow> bool" where
  "endsWith s p \<longleftrightarrow> prefix (rev p) (rev s)"

fun includes_str :: "string \<Rightarrow> string \<Rightarrow> bool" where
  "includes_str [] p = (p = [])"
| "includes_str (c # cs) p = (prefix p (c # cs) \<or> includes_str cs p)"

definition trim :: "string \<Rightarrow> string" where
  "trim s = rev (dropWhile is_space (rev (dropWhile is_space s)))"

text \<open>
  A regular expression is modelled by its matcher at one position: a function that, given
  the rest of the string from that position, says how many characters the match consumes
  there (following the priorities of the backtracking matcher), or \<open>None\<close>.
  \<^verbatim>\<open>String.prototype.replace\<close> with a regular expression that has no \<^verbatim>\<open>g\<close> flag
  rewrites the leftmost match only; the replacement may depend on the matched text
  (\<^verbatim>\<open>$1\<close>, \<^verbatim>\<open>$2\<close>).
\<close>

fun replace_first :: "(string \<Rightarrow> nat option) \<Rightarrow> (string \<Rightarrow> string) \<Rightarrow> string \<Rightarrow> string" where
  "replace_first m r [] = (case m [] of Some n \<Rightarrow> r [] | None \<Rightarrow> [])"
| "replace_first m r (c # cs) =
     (case m (c # cs) of
        Some n \<Rightarrow> r (take n (c # cs)) @ drop n (c # cs)
      | None \<Rightarrow> c # replace_first m r cs)"

fun regex_test :: "(string \<Rightarrow> nat option) \<Rightarrow> string \<Rightarrow> bool" where
  "regex_test m [] = (m [] \<noteq> None)"
| "regex_test m (c # cs) = (m (c # cs) \<noteq> None \<or> regex_test m cs)"

definition literal :: "string \<Rightarrow> string \<Rightarrow> nat option" where
  \<comment> \<open>a pattern that is a plain string\<close>
  "literal p s = (if prefix p s then Some (length p) else None)"

definition literal_at_end :: "string \<Rightarrow> string \<Rightarrow> nat option" where
  \<comment> \<open>a plain string followed by \<^verbatim>\<open>$\<close>\<close>
  "literal_at_end p s = (if s = p then Some (length p) else None)"

section \<open>Artwork URLs: \<^verbatim>\<open>displayResults\<close>\<close>

text \<open>Template literals print a size in decimal.\<close>

definition digit_char :: "nat \<Rightarrow> char" where
  \<comment> \<open>only used below ten\<close>
  "digit_char d = ''0123456789'' ! d"

fun dec :: "nat \<Rightarrow> string" where
  "dec n = (if n < 10 then [digit_char n] else dec (n div 10) @ [digit_char (n mod 10)])"

declare dec.simps [simp del]

definition size_token :: "string \<Rightarrow> nat option" where
  \<comment> \<open>\<^verbatim>\<open>/(\/)\d+x\d+(bb)?/\<close>: both \<^verbatim>\<open>\d+\<close> are greedy and what follows each cannot
      start with a digit, so each takes the whole run of digits\<close>
  "size_token s =
     (case s of
        [] \<Rightarrow> None
      | c # s1 \<Rightarrow>
          if c \<noteq> CHR ''/'' then None
          else let w = takeWhile is_digit s1; s2 = dropWhile is_digit s1 in
            if w = [] then None
            else (case s2 of
                    [] \<Rightarrow> None
                  | x # s3 \<Rightarrow>
                      if x \<noteq> CHR ''x'' then None
                      else let h = takeWhile is_digit s3; s4 = dropWhile is_digit s3 in
                        if h = [] then None
                        else Some (1 + length w + 1 + length h
                                   + (if prefix ''bb'' s4 then 2 else 0))))"

definition size_replacement :: "nat \<Rightarrow> string" where
  \<comment> \<open>the replacement \<^verbatim>\<open>`$1${size}x${size}-999`\<close>. The pattern has two groups, so
      \<^verbatim>\<open>$1\<close> followed by the first digit of the size is read as group 1 and a digit, and
      group 1 is always the slash\<close>
  "size_replacement sz = ''/'' @ dec sz @ ''x'' @ dec sz @ ''-999''"

definition jpg_to_png :: "string \<Rightarrow> string" where
  \<comment> \<open>\<^verbatim>\<open>.replace(/\.jpg$/, '.png')\<close>\<close>
  "jpg_to_png s = replace_first (literal_at_end ''.jpg'') (\<lambda>_. ''.png'') s"

definition fixArtworkUrl :: "bool \<Rightarrow> string \<Rightarrow> nat \<Rightarrow> string" where
  \<comment> \<open>\<open>png\<close> is the parameter \<^verbatim>\<open>usePng\<close> of the enclosing \<^verbatim>\<open>displayResults\<close>\<close>
  "fixArtworkUrl png url sz =
     (let newUrl = replace_first size_token (\<lambda>_. size_replacement sz) url;
          newUrl = (if \<not> endsWith newUrl ''.jpg'' then newUrl @ ''.jpg'' else newUrl);
          newUrl = (if png then jpg_to_png newUrl else newUrl)
      in newUrl)"

text \<open>
  The maximum-resolution URL. The host pattern
  \<^verbatim>\<open>/^https:\/\/.*?\.mzstatic\.com\/image\/thumb\/(.*)\/.*\.(jpg|png)$/\<close> is anchored at both
  ends, so it matches the whole string or nothing. \<open>host_tail\<close> is the part after the
  literal, \<^verbatim>\<open>(.*)\/.*\.(jpg|png)$\<close>: the group is greedy, so the longest candidate is
  tried first; it yields the text of group 1. \<open>host_lazy\<close> is the lazy \<^verbatim>\<open>.*?\<close> followed
  by the literal: the shortest candidate is tried first, and the next one only when the
  rest fails.
\<close>

definition host_tail_ok :: "string \<Rightarrow> nat \<Rightarrow> bool" where
  "host_tail_ok t k \<longleftrightarrow>
     \<not> list_ex is_line_terminator (take k t) \<and> prefix ''/'' (drop k t) \<and>
     (let r = drop (Suc k) t
      in \<not> list_ex is_line_terminator r \<and> (endsWith r ''.jpg'' \<or> endsWith r ''.png''))"

definition host_tail :: "string \<Rightarrow> string option" where
  "host_tail t = map_option (\<lambda>k. take k t) (find (host_tail_ok t) (rev [0..<Suc (length t)]))"

fun host_lazy :: "string \<Rightarrow> string option" where
  "host_lazy [] = None"
| "host_lazy (c # cs) =
     (case (if prefix ''.mzstatic.com/image/thumb/'' (c # cs)
            then host_tail (drop (length ''.mzstatic.com/image/thumb/'') (c # cs)) else None) of
        Some b \<Rightarrow> Some b
      | None \<Rightarrow> if is_line_terminator c then None else host_lazy cs)"

definition host_rewrite :: "string \<Rightarrow> string" where
  \<comment> \<open>the replacement is \<^verbatim>\<open>"https://a1.mzstatic.com/us/r1000/063/$1"\<close>\<close>
  "host_rewrite s =
     (case (if prefix ''https://'' s then host_lazy (drop (length ''https://'') s) else None) of
        Some b \<Rightarrow> ''https://a1.mzstatic.com/us/r1000/063/'' @ b
      | None \<Rightarrow> s)"

definition image_exts :: "string list" where
  \<comment> \<open>the alternation \<^verbatim>\<open>\.(jpg|png|webp|tif)\<close>\<close>
  "image_exts = [''.jpg'', ''.png'', ''.webp'', ''.tif'']"

definition bb_last_segment :: "string \<Rightarrow> nat option" where
  \<comment> \<open>\<^verbatim>\<open>/\/([^\/]*?)bb(\.(jpg|png|webp|tif))$/\<close>: a slash, a text without slash, then
      \<^verbatim>\<open>bb\<close> and an extension up to the end; the end anchor fixes the length of the lazy
      group\<close>
  "bb_last_segment s =
     (case s of
        [] \<Rightarrow> None
      | c # t \<Rightarrow>
          if c = CHR ''/'' \<and> CHR ''/'' \<notin> set t \<and> (\<exists>e \<in> set image_exts. endsWith t (''bb'' @ e))
          then Some (length s) else None)"

definition drop_bb :: "string \<Rightarrow> string" where
  \<comment> \<open>the replacements \<^verbatim>\<open>'/$1$2'\<close> and \<^verbatim>\<open>'$1'\<close>: the matched text without the
      \<^verbatim>\<open>bb\<close> before its extension\<close>
  "drop_bb m =
     (case find (\<lambda>e. endsWith m (''bb'' @ e)) image_exts of
        Some e \<Rightarrow> take (length m - length e - 2) m @ e
      | None \<Rightarrow> m)"

definition artworkUrl5000 :: "bool \<Rightarrow> string \<Rightarrow> string" where
  "artworkUrl5000 png artworkUrl100 =
     (let u = fixArtworkUrl png artworkUrl100 10000;
          u = host_rewrite u;
          u = replace_first bb_last_segment drop_bb u
      in u)"

text \<open>The e-book cover, computed when the entity is \<^verbatim>\<open>ebook\<close>.\<close>

definition bb_before_jpg :: "string \<Rightarrow> nat option" where
  \<comment> \<open>\<^verbatim>\<open>/bb(?=\.jpg)/\<close>\<close>
  "bb_before_jpg s = (if prefix ''bb.jpg'' s then Some 2 else None)"

definition bare_1467x2200 :: "string \<Rightarrow> nat option" where
  \<comment> \<open>\<^verbatim>\<open>/(1467x2200)(?!-999)(?=\.jpg)/\<close>\<close>
  "bare_1467x2200 s =
     (if prefix ''1467x2200'' s \<and> \<not> prefix ''-999'' (drop 9 s) \<and> prefix ''.jpg'' (drop 9 s)
      then Some 9 else None)"

definition artworkUrl1467x2200 :: "bool \<Rightarrow> string \<Rightarrow> string" where
  "artworkUrl1467x2200 png artworkUrl100 =
     (let u = replace_first (literal ''100x100'') (\<lambda>_. ''1467x2200'') artworkUrl100;
          u = replace_first bb_before_jpg (\<lambda>_. []) u;
          u = replace_first bare_1467x2200 (\<lambda>m. m @ ''-999'') u;
          u = (if \<not> endsWith u ''.jpg''
               then (if \<not> regex_test (literal_at_end ''-999'') u then u @ ''-999'' else u) @ ''.jpg''
               else u);
          u = (if png then jpg_to_png u else u)
      in u)"

text \<open>The poster of a film, and of a television season: two branches of the source.\<close>

definition bb_before_ext :: "string \<Rightarrow> nat option" where
  \<comment> \<open>\<^verbatim>\<open>/bb(\.(jpg|png|webp|tif))$/\<close>\<close>
  "bb_before_ext s = (if \<exists>e \<in> set image_exts. s = ''bb'' @ e then Some (length s) else None)"

definition other_ext :: "string \<Rightarrow> nat option" where
  \<comment> \<open>\<^verbatim>\<open>/\.(png|webp|tif)$/\<close>\<close>
  "other_ext s = (if s \<in> set [''.png'', ''.webp'', ''.tif''] then Some (length s) else None)"

definition movieHdUrl :: "bool \<Rightarrow> string \<Rightarrow> string" where
  "movieHdUrl png artworkUrl100 =
     (let movieHdUrl = replace_first (literal ''100x100'') (\<lambda>_. ''10000x10000-999'') artworkUrl100;
          movieHdUrl = replace_first bb_before_ext drop_bb movieHdUrl;
          movieHdUrl =
            (if \<not> endsWith movieHdUrl ''.jpg''
             then (let stripped = replace_first other_ext (\<lambda>_. []) movieHdUrl
                   in if \<not> endsWith stripped ''.jpg'' then stripped @ ''.jpg'' else stripped)
             else movieHdUrl);
          movieHdUrl = (if png then jpg_to_png movieHdUrl else movieHdUrl)
      in movieHdUrl)"

definition tvHdUrl :: "bool \<Rightarrow> string \<Rightarrow> string" where
  "tvHdUrl png artworkUrl100 =
     (let tvHdUrl = replace_first (literal ''100x100'') (\<lambda>_. ''10000x10000-999'') artworkUrl100;
          tvHdUrl = replace_first bb_before_ext drop_bb tvHdUrl;
          tvHdUrl =
            (if \<not> endsWith tvHdUrl ''.jpg''
             then (let stripped = replace_first other_ext (\<lambda>_. []) tvHdUrl
                   in if \<not> endsWith stripped ''.jpg'' then stripped @ ''.jpg'' else stripped)
             else tvHdUrl);
          tvHdUrl = (if png then jpg_to_png tvHdUrl else tvHdUrl)
      in tvHdUrl)"

definition appHdUrl :: "bool \<Rightarrow> string \<Rightarrow> string" where
  "appHdUrl png artworkUrl100 =
     (let u = fixArtworkUrl png artworkUrl100 10000;
          u = host_rewrite u;
          u = replace_first bb_last_segment drop_bb u;
          u = (if png then jpg_to_png u else u)
      in u)"

datatype entity = Album | Song | Audiobook | Ebook | Movie | TvSeason | Software

type_synonym link = "string \<times> string"
  \<comment> \<open>the label of a download link and its address\<close>

definition linksHtml :: "entity \<Rightarrow> bool \<Rightarrow> string \<Rightarrow> link list" where
  \<comment> \<open>the chain of branches on \<^verbatim>\<open>entity\<close>; the last one serves albums and songs\<close>
  "linksHtml e png artworkUrl100 =
     (if e = Audiobook then
        (let artworkUrl3000 = fixArtworkUrl png artworkUrl100 3000;
             artworkUrl3000Audiobook = (if png then jpg_to_png artworkUrl3000 else artworkUrl3000)
         in [(''3000'', artworkUrl3000Audiobook), (''HD'', artworkUrl5000 png artworkUrl100)])
      else if e = Ebook then
        (let u = artworkUrl1467x2200 png artworkUrl100;
             artworkUrl1467x2200Ebook = (if png then jpg_to_png u else u)
         in [(''2200'', artworkUrl1467x2200Ebook), (''HD'', artworkUrl5000 png artworkUrl100)])
      else if e = Movie then [(''HD'', movieHdUrl png artworkUrl100)]
      else if e = TvSeason then [(''HD'', tvHdUrl png artworkUrl100)]
      else if e = Software then [(''HD'', appHdUrl png artworkUrl100)]
      else [(''600'', fixArtworkUrl png artworkUrl100 600),
            (''1500'', fixArtworkUrl png artworkUrl100 1500),
            (''3000'', fixArtworkUrl png artworkUrl100 3000),
            (''HD'', artworkUrl5000 png artworkUrl100)])"

text \<open>
  One item of \<^verbatim>\<open>resultItems.map\<close>. The thumbnail is read with
  \<^verbatim>\<open>result["artworkUrl100"]\<close>, which is \<^verbatim>\<open>undefined\<close> (\<open>None\<close>) for a record that has no
  such field; the first \<^verbatim>\<open>url.replace\<close> then throws a \<^verbatim>\<open>TypeError\<close>. On a string no
  step of the derivation throws.
\<close>

datatype error = TypeError

record item =
  preview :: string
  links :: "link list"

definition displayResult :: "entity \<Rightarrow> bool \<Rightarrow> string option \<Rightarrow> error + item" where
  "displayResult e png artworkUrl100 =
     (case artworkUrl100 of
        None \<Rightarrow> Inl TypeError
      | Some url \<Rightarrow> Inr \<lparr>preview = fixArtworkUrl png url 300, links = linksHtml e png url\<rparr>)"

section \<open>Queries: \<^verbatim>\<open>parseSearchTerm\<close>\<close>

definition ci_literal :: "string \<Rightarrow> string \<Rightarrow> nat option" where
  \<comment> \<open>a plain string under the \<^verbatim>\<open>i\<close> flag\<close>
  "ci_literal p s =
     (if length p \<le> length s \<and> map canonicalize (take (length p) s) = map canonicalize p
      then Some (length p) else None)"

text \<open>
  \<^verbatim>\<open>replace\<close> with the \<^verbatim>\<open>g\<close> flag rewrites every match, each search starting where the
  match before it ended; after an empty match the next character is copied.
\<close>

function replace_all :: "(string \<Rightarrow> nat option) \<Rightarrow> (string \<Rightarrow> string) \<Rightarrow> string \<Rightarrow> string" where
  "replace_all m r [] = (case m [] of Some n \<Rightarrow> r [] | None \<Rightarrow> [])"
| "replace_all m r (c # cs) =
     (case m (c # cs) of
        Some n \<Rightarrow>
          if n = 0 then r [] @ c # replace_all m r cs
          else r (take n (c # cs)) @ replace_all m r (drop n (c # cs))
      | None \<Rightarrow> c # replace_all m r cs)"
  by pat_completeness auto
termination
  by (relation "measure (\<lambda>(m, r, s). length s)") auto

definition remove_png :: "string \<Rightarrow> string" where
  \<comment> \<open>\<^verbatim>\<open>.replace(/\.png/gi, '')\<close>\<close>
  "remove_png s = replace_all (ci_literal ''.png'') (\<lambda>_. []) s"

datatype attribute =
  NoAttribute | ArtistTerm | TitleTerm | AuthorTerm | DirectorTerm | ActorTerm | ComposerTerm

record parsed =
  searchTerm :: string
  entity :: entity
  countryCode :: string
  usePng :: bool
  attribute :: attribute
  lookupMode :: bool

definition attributeEntityMap :: "(string \<times> entity \<times> attribute) list" where
  "attributeEntityMap =
     [(''artist:'', Album, ArtistTerm),
      (''title:'', Album, TitleTerm),
      (''author:'', Audiobook, AuthorTerm),
      (''director:'', Movie, DirectorTerm),
      (''actor:'', Movie, ActorTerm),
      (''composer:'', Album, ComposerTerm)]"

definition entityMap :: "(string \<times> entity) list" where
  "entityMap =
     [(''album:'', Album),
      (''song:'', Song),
      (''audiobook:'', Audiobook),
      (''ebook:'', Ebook),
      (''movie:'', Movie),
      (''tv:'', TvSeason),
      (''app:'', Software)]"

definition countryMap :: "(string \<times> string) list" where
  "countryMap =
     [(''uk:'', ''gb''), (''us:'', ''us''), (''ca:'', ''ca''), (''au:'', ''au''), (''fr:'', ''fr''),
      (''de:'', ''de''), (''jp:'', ''jp''), (''it:'', ''it''), (''es:'', ''es''), (''nl:'', ''nl''),
      (''br:'', ''br''), (''mx:'', ''mx''), (''ru:'', ''ru''), (''se:'', ''se''), (''cn:'', ''cn''),
      (''kr:'', ''kr''), (''in:'', ''in''), (''za:'', ''za''), (''no:'', ''no''), (''dk:'', ''dk''),
      (''fi:'', ''fi''), (''pl:'', ''pl''), (''at:'', ''at''), (''ch:'', ''ch''), (''be:'', ''be''),
      (''pt:'', ''pt''), (''gr:'', ''gr''), (''tr:'', ''tr''), (''ar:'', ''ar''), (''cl:'', ''cl''),
      (''co:'', ''co''), (''pe:'', ''pe''), (''eg:'', ''eg''), (''th:'', ''th''), (''id:'', ''id''),
      (''my:'', ''my''), (''sg:'', ''sg''), (''ph:'', ''ph''), (''vn:'', ''vn''), (''tw:'', ''tw''),
      (''hk:'', ''hk''), (''nz:'', ''nz''), (''ie:'', ''ie''), (''cz:'', ''cz''), (''sk:'', ''sk''),
      (''hu:'', ''hu''), (''ro:'', ''ro''), (''bg:'', ''bg''), (''hr:'', ''hr''), (''si:'', ''si''),
      (''lt:'', ''lt''), (''lv:'', ''lv''), (''ee:'', ''ee''), (''is:'', ''is''), (''lu:'', ''lu''),
      (''mt:'', ''mt''), (''cy:'', ''cy'')]"

text \<open>
  The pattern
  \<^verbatim>\<open>/(https?:\/\/(itunes|apps|books)\.apple\.com\/[^\s]+\/id(\d+))/i\<close> at one position.
  After \<^verbatim>\<open>http\<close> an \<^verbatim>\<open>s\<close> is taken when there is one (without it the colon would have to
  stand where the \<^verbatim>\<open>s\<close> is). \<open>id_at\<close> is \<^verbatim>\<open>\/id(\d+)\<close> with its greedy digits;
  \<^verbatim>\<open>[^\s]+\<close> is greedy, so of the places where \<open>id_at\<close> matches inside the run of
  non-space characters the last is taken. The result is the length of the match (group 1
  is the whole match) and the digits (group 3).
\<close>

definition id_at :: "string \<Rightarrow> string option" where
  "id_at t =
     (case ci_literal ''/id'' t of
        None \<Rightarrow> None
      | Some n \<Rightarrow> (let d = takeWhile is_digit (drop n t) in if d = [] then None else Some d))"

definition store_host :: "string \<Rightarrow> nat option" where
  \<comment> \<open>the alternation \<^verbatim>\<open>(itunes|apps|books)\<close>, in its order\<close>
  "store_host s =
     (case ci_literal ''itunes'' s of
        Some n \<Rightarrow> Some n
      | None \<Rightarrow> (case ci_literal ''apps'' s of Some n \<Rightarrow> Some n | None \<Rightarrow> ci_literal ''books'' s))"

definition urlPattern :: "string \<Rightarrow> (nat \<times> string) option" where
  "urlPattern s =
     (case ci_literal ''http'' s of
        None \<Rightarrow> None
      | Some n0 \<Rightarrow>
          let s1 = drop n0 s;
              s2 = (case ci_literal ''s'' s1 of Some n1 \<Rightarrow> drop n1 s1 | None \<Rightarrow> s1)
          in case ci_literal ''://'' s2 of
               None \<Rightarrow> None
             | Some n2 \<Rightarrow>
                 let s3 = drop n2 s2
                 in case store_host s3 of
                      None \<Rightarrow> None
                    | Some n3 \<Rightarrow>
                        let s4 = drop n3 s3
                        in case ci_literal ''.apple.com/'' s4 of
                             None \<Rightarrow> None
                           | Some n4 \<Rightarrow>
                               let s5 = drop n4 s4;
                                   run = length (takeWhile (\<lambda>c. \<not> is_space c) s5)
                               in case find (\<lambda>k. id_at (drop k s5) \<noteq> None) (rev [1..<Suc run]) of
                                    None \<Rightarrow> None
                                  | Some k \<Rightarrow>
                                      (case id_at (drop k s5) of
                                         None \<Rightarrow> None
                                       | Some d \<Rightarrow>
                                           Some (length s - length s5 + k + 3 + length d, d)))"

fun regex_match :: "(string \<Rightarrow> (nat \<times> string) option) \<Rightarrow> string \<Rightarrow> (string \<times> string) option" where
  \<comment> \<open>\<^verbatim>\<open>String.prototype.match\<close> without the \<^verbatim>\<open>g\<close> flag: the leftmost match, as the matched
      text and the group\<close>
  "regex_match m [] = map_option (\<lambda>(n, g). ([], g)) (m [])"
| "regex_match m (c # cs) =
     (case m (c # cs) of
        Some (n, g) \<Rightarrow> Some (take n (c # cs), g)
      | None \<Rightarrow> regex_match m cs)"

definition urlEntity :: "string \<Rightarrow> entity" where
  "urlEntity urlLower =
     (if includes_str urlLower ''/app/'' then Software
      else if includes_str urlLower ''/movie/'' then Movie
      else if includes_str urlLower ''/tv-season/'' \<or> includes_str urlLower ''/tvshow/'' then TvSeason
      else if includes_str urlLower ''/audiobook/'' then Audiobook
      else if includes_str urlLower ''/book/'' \<or> includes_str urlLower ''/books/'' then Ebook
      else Album)"

definition strip_prefix :: "string \<Rightarrow> string \<Rightarrow> string" where
  \<comment> \<open>\<^verbatim>\<open>searchTerm.replace(new RegExp('^' + prefix, 'i'), '').trim()\<close>\<close>
  "strip_prefix p s = trim (case ci_literal p s of Some n \<Rightarrow> drop n s | None \<Rightarrow> s)"

definition first_prefix :: "(string \<times> 'a) list \<Rightarrow> string \<Rightarrow> (string \<times> 'a) option" where
  \<comment> \<open>\<^verbatim>\<open>for (const prefix in map) { if (lowerTerm.startsWith(prefix)) { ...; break; } }\<close>:
      the keys are visited in the order they are written\<close>
  "first_prefix table lowerTerm = find (\<lambda>(p, v). startsWith lowerTerm p) table"

definition parse_prefixes :: "bool \<Rightarrow> string \<Rightarrow> parsed" where
  \<comment> \<open>the block guarded by \<^verbatim>\<open>searchTerm && !urlParsed\<close>\<close>
  "parse_prefixes png searchTerm0 =
     (let (countryCode1, searchTerm1) =
            (case first_prefix countryMap (toLowerCase searchTerm0) of
               Some (p, v) \<Rightarrow> (v, strip_prefix p searchTerm0)
             | None \<Rightarrow> (''us'', searchTerm0));
          (entity1, entityFound, searchTerm2) =
            (case first_prefix entityMap (toLowerCase searchTerm1) of
               Some (p, v) \<Rightarrow> (v, True, strip_prefix p searchTerm1)
             | None \<Rightarrow> (Album, False, searchTerm1));
          (entity2, attribute1, searchTerm3) =
            (case first_prefix attributeEntityMap (toLowerCase searchTerm2) of
               Some (p, e, a) \<Rightarrow> (if \<not> entityFound then e else entity1, a, strip_prefix p searchTerm2)
             | None \<Rightarrow> (entity1, NoAttribute, searchTerm2))
      in \<lparr>searchTerm = searchTerm3, entity = entity2, countryCode = countryCode1, usePng = png,
          attribute = attribute1, lookupMode = False\<rparr>)"

definition parseSearchTerm :: "string \<Rightarrow> parsed" where
  "parseSearchTerm rawTerm =
     (let png = (rawTerm \<noteq> [] \<and> includes_str (toLowerCase rawTerm) ''.png'');
          rawTerm1 = (if png then trim (remove_png rawTerm) else rawTerm);
          searchTerm0 =
            (if rawTerm1 \<noteq> [] \<and> includes_str (toLowerCase rawTerm1) ''.png''
             then trim (remove_png rawTerm1) else rawTerm1)
      in case regex_match urlPattern rawTerm1 of
           Some (url, ident) \<Rightarrow>
             \<lparr>searchTerm = ident, entity = urlEntity (toLowerCase url), countryCode = ''us'',
              usePng = png, attribute = NoAttribute, lookupMode = True\<rparr>
         | None \<Rightarrow>
             if searchTerm0 \<noteq> [] then parse_prefixes png searchTerm0
             else \<lparr>searchTerm = searchTerm0, entity = Album, countryCode = ''us'', usePng = png,
                   attribute = NoAttribute, lookupMode = False\<rparr>)"




section \<open>Vocabulary of the statements\<close>

definition digits :: "string \<Rightarrow> bool" where
  \<comment> \<open>a width or a height: one digit or more\<close>
  "digits w \<longleftrightarrow> w \<noteq> [] \<and> list_all is_digit w"

definition continues_token :: "string \<Rightarrow> bool" where
  \<comment> \<open>the text after a size token without \<^verbatim>\<open>bb\<close> would make the token longer\<close>
  "continues_token post \<longleftrightarrow>
     (case post of [] \<Rightarrow> False | c # _ \<Rightarrow> is_digit c) \<or> prefix ''bb'' post"

definition drop_jpg :: "string \<Rightarrow> string" where
  \<comment> \<open>a text without its final \<^verbatim>\<open>.jpg\<close>, when it has one\<close>
  "drop_jpg s = (if endsWith s ''.jpg'' then take (length s - 4) s else s)"

definition has_png :: "string \<Rightarrow> bool" where
  \<comment> \<open>the test \<^verbatim>\<open>term.toLowerCase().includes('.png')\<close>\<close>
  "has_png s \<longleftrightarrow> includes_str (toLowerCase s) ''.png''"

definition trimmed :: "string \<Rightarrow> bool" where
  \<comment> \<open>no white space at either end\<close>
  "trimmed s \<longleftrightarrow> s = [] \<or> (\<not> is_space (hd s) \<and> \<not> is_space (last s))"

definition strip_png :: "string \<Rightarrow> string" where
  \<comment> \<open>one of the two removals of the format token at the start of \<^verbatim>\<open>parseSearchTerm\<close>\<close>
  "strip_png s = (if s \<noteq> [] \<and> has_png s then trim (remove_png s) else s)"



section \<open>Leftmost matches\<close>

lemma replace_first_no_match: "\<not> regex_test m s \<Longrightarrow> replace_first m r s = s"
  by (induction s) (auto split: option.splits)

lemma replace_first_at:
  "(\<forall>i<length pre. m (drop i pre @ rest) = None) \<Longrightarrow> m rest = Some n \<Longrightarrow>
   replace_first m r (pre @ rest) = pre @ r (take n rest) @ drop n rest"
proof (induction pre)
  case Nil
  then show ?case by (cases rest) auto
next
  case (Cons c pre)
  have "m ((c # pre) @ rest) = None" using Cons.prems(1) by force
  moreover have "\<forall>i<length pre. m (drop i pre @ rest) = None"
    using Cons.prems(1) by (metis Suc_less_eq drop_Suc_Cons length_Cons)
  ultimately show ?case using Cons by simp
qed

lemma regex_test_split:
  "regex_test m s \<Longrightarrow> \<exists>pre rest n. s = pre @ rest \<and> m rest = Some n \<and>
     replace_first m r s = pre @ r (take n rest) @ drop n rest"
proof (induction s)
  case Nil
  then show ?case by auto
next
  case (Cons c cs)
  show ?case
  proof (cases "m (c # cs)")
    case (Some n)
    then have "c # cs = [] @ (c # cs) \<and> m (c # cs) = Some n \<and>
       replace_first m r (c # cs) = [] @ r (take n (c # cs)) @ drop n (c # cs)" by simp
    then show ?thesis by blast
  next
    case None
    then have "regex_test m cs" using Cons.prems by simp
    then obtain pre rest n where h: "cs = pre @ rest" "m rest = Some n"
      "replace_first m r cs = pre @ r (take n rest) @ drop n rest" using Cons.IH by blast
    then have "c # cs = (c # pre) @ rest \<and> m rest = Some n \<and>
       replace_first m r (c # cs) = (c # pre) @ r (take n rest) @ drop n rest"
      using None by simp
    then show ?thesis by blast
  qed
qed

lemma regex_test_iff: "regex_test m s \<longleftrightarrow> (\<exists>i\<le>length s. m (drop i s) \<noteq> None)"
proof (induction s)
  case Nil then show ?case by simp
next
  case (Cons c cs)
  show ?case
  proof
    assume "regex_test m (c # cs)"
    then consider "m (c # cs) \<noteq> None" | "regex_test m cs" by auto
    then show "\<exists>i\<le>length (c # cs). m (drop i (c # cs)) \<noteq> None"
    proof cases
      case 1 then have "m (drop 0 (c # cs)) \<noteq> None" by simp
      then show ?thesis by blast
    next
      case 2 then obtain i where "i \<le> length cs" "m (drop i cs) \<noteq> None" using Cons.IH by blast
      then have "Suc i \<le> length (c # cs) \<and> m (drop (Suc i) (c # cs)) \<noteq> None" by simp
      then show ?thesis by blast
    qed
  next
    assume "\<exists>i\<le>length (c # cs). m (drop i (c # cs)) \<noteq> None"
    then obtain i where i: "i \<le> length (c # cs)" "m (drop i (c # cs)) \<noteq> None" by blast
    show "regex_test m (c # cs)"
    proof (cases i)
      case 0 then show ?thesis using i by simp
    next
      case (Suc j) then have "j \<le> length cs \<and> m (drop j cs) \<noteq> None" using i by simp
      then show ?thesis using Cons.IH by auto
    qed
  qed
qed

lemma is_digit_slash [simp]: "\<not> is_digit CHR ''/''" by (simp add: is_digit_def)
lemma is_digit_x [simp]: "\<not> is_digit CHR ''x''" by (simp add: is_digit_def)
lemma is_digit_b [simp]: "\<not> is_digit CHR ''b''" by (simp add: is_digit_def)

lemma takeWhile_stop: "\<not> P y \<Longrightarrow> takeWhile P (xs @ y # ys) = takeWhile P xs"
  by (induction xs) auto

lemma dropWhile_stop: "\<not> P y \<Longrightarrow> dropWhile P (xs @ y # ys) = dropWhile P xs @ y # ys"
  by (induction xs) auto

lemma prefix_bb_slash: "prefix ''bb'' (u @ CHR ''/'' # r) \<longleftrightarrow> prefix ''bb'' u"
proof (cases u)
  case Nil then show ?thesis by simp
next
  case (Cons a u') then show ?thesis by (cases u') auto
qed

lemma size_token_slash_boundary:
  assumes "t \<noteq> []" shows "size_token (t @ CHR ''/'' # r) = size_token t"
proof -
  obtain c s1 where t: "t = c # s1" using assms by (cases t) auto
  show ?thesis
  proof (cases "dropWhile is_digit s1")
    case Nil
    show ?thesis by (simp add: Nil t size_token_def takeWhile_stop dropWhile_stop Let_def)
  next
    case (Cons x s3)
    show ?thesis
      by (simp add: Cons t size_token_def takeWhile_stop dropWhile_stop prefix_bb_slash Let_def)
  qed
qed

lemma endsWith_suffix: "endsWith s p \<longleftrightarrow> suffix p s"
  by (simp add: endsWith_def suffix_to_prefix)

lemma endsWith_past_block:
  assumes "B \<noteq> []" "last B \<notin> set p"
  shows "endsWith (A @ B @ post) p \<longleftrightarrow> endsWith post p"
proof
  assume "endsWith post p"
  then show "endsWith (A @ B @ post) p"
    by (metis append.assoc endsWith_suffix suffix_appendI)
next
  assume "endsWith (A @ B @ post) p"
  then have "suffix p ((A @ B) @ post)" by (simp add: endsWith_suffix)
  then have "suffix p post \<or> (\<exists>q. p = q @ post \<and> suffix q (A @ B))"
    by (rule suffix_append[THEN iffD1])
  then consider "suffix p post" | q where "suffix q (A @ B)" "p = q @ post"
    by blast
  then show "endsWith post p"
  proof cases
    case 1 then show ?thesis by (simp add: endsWith_suffix)
  next
    case 2
    show ?thesis
    proof (cases "q = []")
      case True then show ?thesis using 2 by (simp add: endsWith_suffix)
    next
      case False
      obtain r where r: "A @ B = r @ q" using 2(1) by (auto simp: suffix_def)
      have "last q = last (A @ B)" using False r by simp
      also have "\<dots> = last B" using assms(1) by simp
      finally have "last B \<in> set p" using False 2(2) by (metis UnCI last_in_set set_append)
      then show ?thesis using assms(2) by simp
    qed
  qed
qed

lemma endsWith_append_same [simp]: "endsWith (s @ p) p"
  by (simp add: endsWith_def)

lemma endsWith_split: "endsWith s p \<Longrightarrow> s = take (length s - length p) s @ p"
  by (metis suffix_take endsWith_suffix)

lemma jpg_to_png_stem: "jpg_to_png (x @ ''.jpg'') = x @ ''.png''"
proof -
  have "\<forall>i<length x. literal_at_end ''.jpg'' (drop i x @ ''.jpg'') = None"
    by (auto simp: literal_at_end_def)
  moreover have "literal_at_end ''.jpg'' ''.jpg'' = Some 4" by (simp add: literal_at_end_def)
  ultimately have "replace_first (literal_at_end ''.jpg'') (\<lambda>_. ''.png'') (x @ ''.jpg'')
      = x @ (\<lambda>_. ''.png'') (take 4 ''.jpg'') @ drop 4 ''.jpg''"
    by (rule replace_first_at)
  then show ?thesis by (simp add: jpg_to_png_def)
qed

lemma is_digit_digit_char: "d < 10 \<Longrightarrow> is_digit (digit_char d)"
proof -
  assume "d < 10"
  then have "d \<in> {0, 1, 2, 3, 4, 5, 6, 7, 8, 9}" by auto
  then show ?thesis by (auto simp: digit_char_def is_digit_def)
qed

lemma starts_digits:
  assumes "\<forall>c\<in>set w. is_digit c" "\<not> is_digit y"
  shows "takeWhile is_digit (w @ y # r) = w" "dropWhile is_digit (w @ y # r) = y # r"
  using assms by (simp_all add: takeWhile_stop dropWhile_stop takeWhile_eq_all_conv[THEN iffD2] dropWhile_eq_Nil_conv[THEN iffD2])

lemma size_token_shape:
  assumes "w \<noteq> []" "\<forall>c\<in>set w. is_digit c" "h \<noteq> []" "\<forall>c\<in>set h. is_digit c"
    and "takeWhile is_digit post = []"
  shows "size_token (''/'' @ w @ ''x'' @ h @ post) =
           Some (length (''/'' @ w @ ''x'' @ h) + (if prefix ''bb'' post then 2 else 0))"
proof -
  have x: "\<not> is_digit CHR ''x''" by (simp add: is_digit_def)
  have w: "takeWhile is_digit (w @ CHR ''x'' # h @ post) = w"
    "dropWhile is_digit (w @ CHR ''x'' # h @ post) = CHR ''x'' # h @ post"
    using starts_digits[OF assms(2) x] by simp_all
  have p: "dropWhile is_digit post = post"
    using assms(5) by (cases post) (auto split: if_splits)
  have h: "takeWhile is_digit (h @ post) = h" "dropWhile is_digit (h @ post) = post"
    using assms(4,5) p by (simp_all add: takeWhile_append2 dropWhile_append2)
  show ?thesis using assms(1,3) by (simp add: size_token_def w h)
qed

section \<open>The size token\<close>

lemma size_token_at_token:
  assumes "digits w" "digits h" "b = ''bb'' \<or> (b = [] \<and> \<not> continues_token post)"
  shows "size_token (''/'' @ w @ ''x'' @ h @ b @ post) = Some (length (''/'' @ w @ ''x'' @ h @ b))"
proof -
  have wh: "w \<noteq> []" "\<forall>c\<in>set w. is_digit c" "h \<noteq> []" "\<forall>c\<in>set h. is_digit c"
    using assms(1,2) by (auto simp: digits_def list_all_iff)
  from assms(3) show ?thesis
  proof
    assume b: "b = ''bb''"
    have "takeWhile is_digit (b @ post) = []" by (simp add: b is_digit_def)
    from size_token_shape[OF wh this] show ?thesis by (simp add: b)
  next
    assume b: "b = [] \<and> \<not> continues_token post"
    then have "takeWhile is_digit post = []" "\<not> prefix ''bb'' post"
      by (auto simp: continues_token_def split: list.splits)
    with size_token_shape[OF wh this(1)] show ?thesis using b by simp
  qed
qed

lemma no_token_before:
  assumes "\<not> regex_test size_token pre"
  shows "\<forall>i<length pre. size_token (drop i pre @ CHR ''/'' # r) = None"
proof (intro allI impI)
  fix i assume i: "i < length pre"
  then have "drop i pre \<noteq> []" by simp
  then have "size_token (drop i pre @ CHR ''/'' # r) = size_token (drop i pre)"
    by (rule size_token_slash_boundary)
  moreover have "size_token (drop i pre) = None"
    using assms i by (simp add: regex_test_iff)
  ultimately show "size_token (drop i pre @ CHR ''/'' # r) = None" by simp
qed

lemma resize_first_token:
  assumes "\<not> regex_test size_token pre" "digits w" "digits h"
    "b = ''bb'' \<or> (b = [] \<and> \<not> continues_token post)"
  shows "replace_first size_token (\<lambda>_. rep) (pre @ ''/'' @ w @ ''x'' @ h @ b @ post) = pre @ rep @ post"
proof -
  let ?rest = "''/'' @ w @ ''x'' @ h @ b @ post"
  have 1: "\<forall>i<length pre. size_token (drop i pre @ ?rest) = None"
    using no_token_before[OF assms(1)] by simp
  have 2: "size_token ?rest = Some (length (''/'' @ w @ ''x'' @ h @ b))"
    by (rule size_token_at_token[OF assms(2-4)])
  from replace_first_at[OF 1 2, of "\<lambda>_. rep"] show ?thesis by simp
qed

lemma last_size_replacement: "last (size_replacement sz) = CHR ''9''" "size_replacement sz \<noteq> []"
  by (simp_all add: size_replacement_def)

lemma size_token_SomeD:
  assumes "size_token s = Some n"
  shows "\<exists>w h b post. s = ''/'' @ w @ ''x'' @ h @ b @ post \<and> digits w \<and> digits h \<and>
           (b = ''bb'' \<or> (b = [] \<and> \<not> continues_token post)) \<and>
           n = length (''/'' @ w @ ''x'' @ h @ b)"
proof -
  obtain s1 where s: "s = CHR ''/'' # s1"
    using assms by (cases s) (auto simp: size_token_def split: if_splits)
  define w where "w = takeWhile is_digit s1"
  define s2 where "s2 = dropWhile is_digit s1"
  have s1: "s1 = w @ s2" by (simp add: w_def s2_def)
  have w: "w \<noteq> []" using assms by (auto simp: s size_token_def w_def Let_def split: if_splits)
  obtain s3 where s2: "s2 = CHR ''x'' # s3"
    using assms by (auto simp: s size_token_def s2_def Let_def split: if_splits list.splits)
  define h where "h = takeWhile is_digit s3"
  define s4 where "s4 = dropWhile is_digit s3"
  have s3: "s3 = h @ s4" by (simp add: h_def s4_def)
  have "dropWhile is_digit s1 = CHR ''x'' # s3" using s2 by (simp add: s2_def)
  then have h: "h \<noteq> []" and n: "n = 1 + length w + 1 + length h + (if prefix ''bb'' s4 then 2 else 0)"
    using assms by (auto simp: s size_token_def w_def h_def s4_def Let_def split: if_splits)
  have dw: "digits w" using w by (auto simp: digits_def w_def list_all_iff dest: set_takeWhileD)
  have dh: "digits h" using h by (auto simp: digits_def h_def list_all_iff dest: set_takeWhileD)
  have s4d: "case s4 of [] \<Rightarrow> True | c # _ \<Rightarrow> \<not> is_digit c"
    unfolding s4_def by (metis (mono_tags, lifting) hd_dropWhile list.case_eq_if list.sel(1))
  show ?thesis
  proof (cases "prefix ''bb'' s4")
    case True
    then obtain post where "s4 = ''bb'' @ post" by (auto simp: prefix_def)
    then have "s = ''/'' @ w @ ''x'' @ h @ ''bb'' @ post \<and> n = length (''/'' @ w @ ''x'' @ h @ ''bb'')"
      using s s1 s2 s3 n by simp
    then show ?thesis using dw dh by blast
  next
    case False
    then have "\<not> continues_token s4" using s4d by (auto simp: continues_token_def split: list.splits)
    moreover have "s = ''/'' @ w @ ''x'' @ h @ [] @ s4 \<and> n = length (''/'' @ w @ ''x'' @ h @ [])"
      using s s1 s2 s3 n False by simp
    ultimately show ?thesis using dw dh by blast
  qed
qed

lemma size_token_last:
  assumes "size_token s = Some n"
  shows "take n s \<noteq> [] \<and> (is_digit (last (take n s)) \<or> last (take n s) = CHR ''b'')"
proof -
  obtain w h b post where d: "s = ''/'' @ w @ ''x'' @ h @ b @ post" "digits w" "digits h"
    "b = ''bb'' \<or> (b = [] \<and> \<not> continues_token post)" "n = length (''/'' @ w @ ''x'' @ h @ b)"
    using size_token_SomeD[OF assms] by blast
  have t: "take n s = ''/'' @ w @ ''x'' @ h @ b" using d(1,5) by simp
  have "is_digit (last h)" using d(3) by (auto simp: digits_def list_all_iff)
  then show ?thesis using d(3,4) by (auto simp: t digits_def)
qed

lemma resize_keeps_jpg:
  "endsWith (replace_first size_token (\<lambda>_. size_replacement sz) url) ''.jpg'' \<longleftrightarrow> endsWith url ''.jpg''"
proof (cases "regex_test size_token url")
  case False then show ?thesis by (simp add: replace_first_no_match)
next
  case True
  from regex_test_split[OF True, of "\<lambda>_. size_replacement sz"]
  obtain pre rest n where s: "url = pre @ rest" "size_token rest = Some n"
     "replace_first size_token (\<lambda>_. size_replacement sz) url = pre @ size_replacement sz @ drop n rest"
    by auto
  have a: "endsWith (pre @ size_replacement sz @ drop n rest) ''.jpg'' \<longleftrightarrow> endsWith (drop n rest) ''.jpg''"
    by (rule endsWith_past_block) (simp_all add: last_size_replacement)
  have "take n rest \<noteq> []" "last (take n rest) \<notin> set ''.jpg''"
    using size_token_last[OF s(2)] by (auto simp: is_digit_def)
  then have "endsWith (pre @ take n rest @ drop n rest) ''.jpg'' \<longleftrightarrow> endsWith (drop n rest) ''.jpg''"
    by (rule endsWith_past_block)
  then show ?thesis using a s by simp
qed

lemma endsWith_length: "endsWith s p \<Longrightarrow> length p \<le> length s"
  by (simp add: endsWith_suffix suffix_length_le)

lemma drop_jpg_append:
  "B \<noteq> [] \<Longrightarrow> last B \<notin> set ''.jpg'' \<Longrightarrow> drop_jpg (A @ B @ post) = A @ B @ drop_jpg post"
  using endsWith_past_block[of B "''.jpg''" A post] endsWith_length[of post "''.jpg''"]
  by (auto simp: drop_jpg_def)

lemma fixArtworkUrl_False:
  "fixArtworkUrl False url sz =
     replace_first size_token (\<lambda>_. size_replacement sz) url @ (if endsWith url ''.jpg'' then [] else ''.jpg'')"
  by (simp add: fixArtworkUrl_def Let_def resize_keeps_jpg)

lemma fixArtworkUrl_stem:
  "fixArtworkUrl png url sz =
     drop_jpg (replace_first size_token (\<lambda>_. size_replacement sz) url) @ (if png then ''.png'' else ''.jpg'')"
proof -
  let ?R = "replace_first size_token (\<lambda>_. size_replacement sz) url"
  have f: "(if \<not> endsWith ?R ''.jpg'' then ?R @ ''.jpg'' else ?R) = drop_jpg ?R @ ''.jpg''"
    using endsWith_split[of ?R "''.jpg''"] by (auto simp: drop_jpg_def eval_nat_numeral)
  show ?thesis
    unfolding fixArtworkUrl_def Let_def f by (simp add: jpg_to_png_stem)
qed

lemma endsWith_past_segment:
  assumes "CHR ''.'' \<notin> set B" "CHR ''/'' \<in> set B" "CHR ''/'' \<notin> set p'"
  shows "endsWith (A @ B @ post) (CHR ''.'' # p') \<longleftrightarrow> endsWith post (CHR ''.'' # p')"
proof
  assume "endsWith post (CHR ''.'' # p')"
  then show "endsWith (A @ B @ post) (CHR ''.'' # p')"
    by (metis append.assoc endsWith_suffix suffix_appendI)
next
  let ?p = "CHR ''.'' # p'"
  assume "endsWith (A @ B @ post) ?p"
  then have "suffix ?p ((A @ B) @ post)" by (simp add: endsWith_suffix)
  then have "suffix ?p post \<or> (\<exists>q. ?p = q @ post \<and> suffix q (A @ B))"
    by (rule suffix_append[THEN iffD1])
  then consider "suffix ?p post" | q where "?p = q @ post" "suffix q (A @ B)"
    by blast
  then show "endsWith post ?p"
  proof cases
    case 1 then show ?thesis by (simp add: endsWith_suffix)
  next
    case 2
    show ?thesis
    proof (cases q)
      case Nil then show ?thesis using 2 by (simp add: endsWith_suffix)
    next
      case (Cons c q')
      then have c: "c = CHR ''.''" and p': "p' = q' @ post" using 2(1) by simp_all
      from 2(2) have "suffix q B \<or> (\<exists>r. q = r @ B \<and> suffix r A)"
        by (rule suffix_append[THEN iffD1])
      then show ?thesis
      proof
        assume "suffix q B"
        then have "set q \<subseteq> set B" by (rule set_mono_suffix)
        then show ?thesis using assms(1) Cons c by auto
      next
        assume "\<exists>r. q = r @ B \<and> suffix r A"
        then obtain r where r: "q = r @ B" by blast
        have "CHR ''/'' \<in> set q" using r assms(2) by simp
        then have "CHR ''/'' \<in> set q'" using Cons c by auto
        then show ?thesis using assms(3) p' by simp
      qed
    qed
  qed
qed

lemma size_token_text:
  assumes "size_token s = Some n"
  shows "CHR ''.'' \<notin> set (take n s) \<and> CHR ''/'' \<in> set (take n s)"
proof -
  obtain w h b post where d: "s = ''/'' @ w @ ''x'' @ h @ b @ post" "digits w" "digits h"
    "b = ''bb'' \<or> (b = [] \<and> \<not> continues_token post)" "n = length (''/'' @ w @ ''x'' @ h @ b)"
    using size_token_SomeD[OF assms] by blast
  have t: "take n s = ''/'' @ w @ ''x'' @ h @ b" using d(1,5) by simp
  have nd: "\<not> is_digit CHR ''.''" by (simp add: is_digit_def)
  have "CHR ''.'' \<notin> set w" "CHR ''.'' \<notin> set h"
    using d(2,3) nd by (auto simp: digits_def list_all_iff)
  moreover have "CHR ''.'' \<notin> set b" using d(4) by auto
  ultimately show ?thesis by (simp add: t)
qed

lemma is_digit_dec: "list_all is_digit (dec n)"
proof (induction n rule: dec.induct)
  case (1 n)
  show ?case
  proof (cases "n < 10")
    case True then show ?thesis by (subst dec.simps) (simp add: is_digit_digit_char)
  next
    case False
    then have "list_all is_digit (dec (n div 10))" using 1 by simp
    moreover have "is_digit (digit_char (n mod 10))" by (simp add: is_digit_digit_char)
    ultimately show ?thesis using False by (subst dec.simps) simp
  qed
qed

lemma size_replacement_text:
  "CHR ''.'' \<notin> set (size_replacement sz) \<and> CHR ''/'' \<in> set (size_replacement sz)"
proof -
  have nd: "\<not> is_digit CHR ''.''" by (simp add: is_digit_def)
  then have "CHR ''.'' \<notin> set (dec sz)" using is_digit_dec[of sz] by (auto simp: list_all_iff)
  then show ?thesis by (simp add: size_replacement_def)
qed

lemma resize_keeps_extension:
  assumes "CHR ''/'' \<notin> set p'"
  shows "endsWith (replace_first size_token (\<lambda>_. size_replacement sz) url) (CHR ''.'' # p')
           \<longleftrightarrow> endsWith url (CHR ''.'' # p')"
proof (cases "regex_test size_token url")
  case False then show ?thesis by (simp add: replace_first_no_match)
next
  case True
  let ?p = "CHR ''.'' # p'"
  from regex_test_split[OF True, of "\<lambda>_. size_replacement sz"]
  obtain pre rest n where s: "url = pre @ rest" "size_token rest = Some n"
     "replace_first size_token (\<lambda>_. size_replacement sz) url = pre @ size_replacement sz @ drop n rest"
    by auto
  have a: "endsWith (pre @ size_replacement sz @ drop n rest) ?p \<longleftrightarrow> endsWith (drop n rest) ?p"
    using size_replacement_text[of sz] assms by (intro endsWith_past_segment) simp_all
  have "endsWith (pre @ take n rest @ drop n rest) ?p \<longleftrightarrow> endsWith (drop n rest) ?p"
    using size_token_text[OF s(2)] assms by (intro endsWith_past_segment) simp_all
  then show ?thesis using a s by simp
qed

lemma endsWith_append_ext: "endsWith s e \<Longrightarrow> endsWith (s @ t) (e @ t)"
  by (simp add: endsWith_def)

lemma dec_sizes:
  "dec 300 = ''300''" "dec 600 = ''600''" "dec 1500 = ''1500''" "dec 3000 = ''3000''"
  "dec 10000 = ''10000''"
  by (simp_all add: dec.simps digit_char_def)

lemma fixArtworkUrl_other_ext:
  assumes "CHR ''/'' \<notin> set p'" "CHR ''.'' # p' \<noteq> ''.jpg''" "length p' = 3" "endsWith url (CHR ''.'' # p')"
  shows "endsWith (fixArtworkUrl False url sz) ((CHR ''.'' # p') @ ''.jpg'')"
proof -
  let ?R = "replace_first size_token (\<lambda>_. size_replacement sz) url"
  have "\<not> endsWith url ''.jpg''"
  proof
    assume "endsWith url ''.jpg''"
    then have "suffix ''.jpg'' url" "suffix (CHR ''.'' # p') url"
      using assms(4) by (simp_all add: endsWith_suffix)
    then obtain x y where "url = x @ ''.jpg''" "url = y @ CHR ''.'' # p'"
      unfolding suffix_def by blast
    then have "x @ ''.jpg'' = y @ CHR ''.'' # p'" by simp
    then have "''.jpg'' = CHR ''.'' # p'"
      using assms(3) by (subst (asm) append_eq_append_conv) simp_all
    then show False using assms(2) by simp
  qed
  then have "fixArtworkUrl False url sz = ?R @ ''.jpg''" by (simp add: fixArtworkUrl_False)
  moreover have "endsWith ?R (CHR ''.'' # p')"
    using assms(1,4) by (simp add: resize_keeps_extension)
  ultimately show ?thesis
    using endsWith_append_ext[of ?R "CHR ''.'' # p'" "''.jpg''"] by simp
qed

lemma fixArtworkUrl_at_first_token:
  assumes "\<not> regex_test size_token pre" "digits w" "digits h"
    "b = ''bb'' \<or> (b = [] \<and> \<not> continues_token post)"
  shows "fixArtworkUrl False (pre @ ''/'' @ w @ ''x'' @ h @ b @ post) sz
         = pre @ ''/'' @ dec sz @ ''x'' @ dec sz @ ''-999'' @ post
           @ (if endsWith (pre @ ''/'' @ w @ ''x'' @ h @ b @ post) ''.jpg'' then [] else ''.jpg'')"
proof -
  have "replace_first size_token (\<lambda>_. size_replacement sz) (pre @ ''/'' @ w @ ''x'' @ h @ b @ post)
         = pre @ size_replacement sz @ post"
    by (rule resize_first_token[OF assms])
  then show ?thesis
    unfolding fixArtworkUrl_False size_replacement_def by simp
qed

lemma not_jpg_and_webp: "endsWith url ''.webp'' \<Longrightarrow> \<not> endsWith url ''.jpg''"
proof
  assume a: "endsWith url ''.webp''" and b: "endsWith url ''.jpg''"
  obtain x where x: "url = x @ ''.jpg''" using b unfolding endsWith_suffix suffix_def by blast
  obtain y where y: "url = y @ ''.webp''" using a unfolding endsWith_suffix suffix_def by blast
  have "last url = CHR ''g''" by (simp add: x)
  moreover have "last url = CHR ''p''" by (simp add: y)
  ultimately show False by simp
qed

lemma fixArtworkUrl_webp:
  assumes "endsWith url ''.webp''"
  shows "endsWith (fixArtworkUrl False url sz) ''.webp.jpg''"
proof -
  let ?R = "replace_first size_token (\<lambda>_. size_replacement sz) url"
  have "fixArtworkUrl False url sz = ?R @ ''.jpg''"
    using not_jpg_and_webp[OF assms] by (simp add: fixArtworkUrl_False)
  moreover have "endsWith ?R ''.webp''"
    using assms resize_keeps_extension[of "''webp''" sz url] by simp
  ultimately show ?thesis
    using endsWith_append_ext[of ?R "''.webp''" "''.jpg''"] by simp
qed

section \<open>Characters, trimming and the stages of the parser\<close>





lemma of_char_canon:
  "(of_char (canonicalize c) :: nat) =
     (let n = of_char c in if (97 \<le> n \<and> n \<le> 122) \<or> (224 \<le> n \<and> n \<le> 254 \<and> n \<noteq> 247) then n - 32 else n)"
  by (auto simp: canonicalize_def Let_def)




lemma sublist_trim: "sublist (trim s) s"
proof -
  have "prefix (rev (dropWhile is_space (rev (dropWhile is_space s)))) (dropWhile is_space s)"
    by (metis suffix_dropWhile suffix_to_prefix rev_rev_ident)
  then have "sublist (trim s) (dropWhile is_space s)" by (simp add: trim_def)
  moreover have "sublist (dropWhile is_space s) s" by (simp add: suffix_dropWhile)
  ultimately show ?thesis using sublist_order.order.trans by blast
qed

lemma trimmed_trim [simp]: "trimmed (trim s)"
proof -
  define t where "t = dropWhile is_space s"
  define u where "u = dropWhile is_space (rev t)"
  have tr: "trim s = rev u" by (simp add: trim_def t_def u_def)
  show ?thesis
  proof (cases "u = []")
    case True then show ?thesis by (simp add: tr trimmed_def)
  next
    case False
    then have hu: "\<not> is_space (hd u)" unfolding u_def using hd_dropWhile by blast
    have "suffix u (rev t)" unfolding u_def by (rule suffix_dropWhile)
    then obtain v where v: "rev t = v @ u" by (auto simp: suffix_def)
    then have "t = rev u @ rev v" by (metis rev_append rev_rev_ident)
    then have "hd t = hd (rev u)" using False by simp
    moreover have "t \<noteq> []" using v False by auto
    then have "\<not> is_space (hd t)" unfolding t_def using hd_dropWhile by blast
    ultimately have "\<not> is_space (hd (rev u))" by simp
    moreover have "last (rev u) = hd u" using False by (simp add: last_rev)
    ultimately show ?thesis using hu by (simp add: tr trimmed_def)
  qed
qed

lemma sublist_strip_prefix: "sublist (strip_prefix p s) s"
proof -
  have "sublist (case ci_literal p s of Some n \<Rightarrow> drop n s | None \<Rightarrow> s) s"
    by (auto split: option.splits simp: suffix_drop)
  then show ?thesis unfolding strip_prefix_def using sublist_trim sublist_order.order.trans by blast
qed

lemma trimmed_strip_prefix [simp]: "trimmed (strip_prefix p s)"
  by (simp add: strip_prefix_def)

lemma parse_prefixes_term:
  "sublist (searchTerm (parse_prefixes png t)) t \<and>
   (searchTerm (parse_prefixes png t) = t \<or> trimmed (searchTerm (parse_prefixes png t)))"
proof -
  obtain c t1 where 1: "(case first_prefix countryMap (toLowerCase t) of
               Some (p, v) \<Rightarrow> (v, strip_prefix p t) | None \<Rightarrow> (''us'', t)) = (c, t1)"
    by (metis surj_pair)
  obtain e f t2 where 2: "(case first_prefix entityMap (toLowerCase t1) of
               Some (p, v) \<Rightarrow> (v, True, strip_prefix p t1)
             | None \<Rightarrow> (Album, False, t1)) = (e, f, t2)"
    by (metis surj_pair)
  obtain e' a t3 where 3: "(case first_prefix attributeEntityMap (toLowerCase t2) of
               Some (p, e', a) \<Rightarrow> (if \<not> f then e' else e, a, strip_prefix p t2)
             | None \<Rightarrow> (e, NoAttribute, t2)) = (e', a, t3)"
    by (metis surj_pair)
  have r: "searchTerm (parse_prefixes png t) = t3"
    by (simp add: parse_prefixes_def 1 2 3)
  have s1: "sublist t1 t \<and> (t1 = t \<or> trimmed t1)"
    using 1 by (auto split: option.splits simp: sublist_strip_prefix)
  have s2: "sublist t2 t1 \<and> (t2 = t1 \<or> trimmed t2)"
    using 2 by (auto split: option.splits simp: sublist_strip_prefix)
  have s3: "sublist t3 t2 \<and> (t3 = t2 \<or> trimmed t3)"
    using 3 by (auto split: option.splits simp: sublist_strip_prefix)
  have "sublist t3 t" using s1 s2 s3 sublist_order.order.trans by blast
  moreover have "t3 = t \<or> trimmed t3" using s1 s2 s3 by auto
  ultimately show ?thesis by (simp add: r)
qed

lemma regex_match_SomeD:
  "regex_match m s = Some (u, g) \<Longrightarrow> \<exists>i n. i \<le> length s \<and> m (drop i s) = Some (n, g) \<and> u = take n (drop i s)"
proof (induction s)
  case Nil
  then have "m (drop 0 []) = Some (0, g) \<or> (\<exists>n. m (drop 0 []) = Some (n, g))" by auto
  then show ?case using Nil by auto
next
  case (Cons c cs)
  show ?case
  proof (cases "m (c # cs)")
    case None
    then have "regex_match m cs = Some (u, g)" using Cons.prems by simp
    then obtain i n where "i \<le> length cs" "m (drop i cs) = Some (n, g)" "u = take n (drop i cs)"
      using Cons.IH by blast
    then have "Suc i \<le> length (c # cs) \<and> m (drop (Suc i) (c # cs)) = Some (n, g) \<and>
        u = take n (drop (Suc i) (c # cs))" by simp
    then show ?thesis by blast
  next
    case (Some a)
    then obtain n where "a = (n, g)" "u = take n (c # cs)" using Cons.prems by (cases a) auto
    then have "0 \<le> length (c # cs) \<and> m (drop 0 (c # cs)) = Some (n, g) \<and>
        u = take n (drop 0 (c # cs))" using Some by simp
    then show ?thesis by blast
  qed
qed


lemma id_at_digits: "id_at t = Some d \<Longrightarrow> d \<noteq> [] \<and> list_all is_digit d"
  by (auto simp: id_at_def Let_def list_all_iff split: option.splits if_splits dest: set_takeWhileD)

lemma urlPattern_digits: "urlPattern s = Some (n, d) \<Longrightarrow> d \<noteq> [] \<and> list_all is_digit d"
  unfolding urlPattern_def Let_def
  by (auto split: option.splits dest: id_at_digits)

lemma regex_match_url_digits:
  "regex_match urlPattern s = Some (u, d) \<Longrightarrow> d \<noteq> [] \<and> list_all is_digit d"
  using regex_match_SomeD urlPattern_digits by blast




lemma has_png_Nil [simp]: "\<not> has_png []"
  by (simp add: has_png_def toLowerCase_def)

lemma parseSearchTerm_unfold:
  "parseSearchTerm raw =
     (case regex_match urlPattern (strip_png raw) of
        Some (url, ident) \<Rightarrow>
          \<lparr>searchTerm = ident, entity = urlEntity (toLowerCase url), countryCode = ''us'',
           usePng = has_png raw, attribute = NoAttribute, lookupMode = True\<rparr>
      | None \<Rightarrow>
          if strip_png (strip_png raw) \<noteq> [] then parse_prefixes (has_png raw) (strip_png (strip_png raw))
          else \<lparr>searchTerm = [], entity = Album, countryCode = ''us'', usePng = has_png raw,
                attribute = NoAttribute, lookupMode = False\<rparr>)"
proof -
  have ne: "(s \<noteq> [] \<and> includes_str (toLowerCase s) ''.png'') = has_png s" for s
    by (cases s) (simp_all add: has_png_def toLowerCase_def)
  have sp: "(if has_png s then trim (remove_png s) else s) = strip_png s" for s
    by (cases s) (simp_all add: strip_png_def)
  show ?thesis
    unfolding parseSearchTerm_def Let_def ne sp
    by (cases "strip_png (strip_png raw) = []") (simp_all split: option.splits)
qed

lemma parse_prefixes_fields:
  "usePng (parse_prefixes png t) = png" "lookupMode (parse_prefixes png t) = False"
  by (simp_all add: parse_prefixes_def Let_def split: option.splits prod.splits)




lemma is_digit_not_space: "is_digit c \<Longrightarrow> \<not> is_space c"
  unfolding is_digit_def is_space_def by auto

lemma digits_trimmed: "list_all is_digit d \<Longrightarrow> trimmed d"
proof (cases d)
  case Nil then show ?thesis by (simp add: trimmed_def)
next
  case (Cons c cs)
  assume "list_all is_digit d"
  then have "is_digit (hd d)" "is_digit (last d)" using Cons by (auto simp: list_all_iff)
  then show ?thesis by (simp add: trimmed_def is_digit_not_space)
qed

lemma strip_png_cases: "strip_png s = s \<or> trimmed (strip_png s)"
  by (simp add: strip_png_def)

lemma strip_png_trimmed: "trimmed s \<Longrightarrow> trimmed (strip_png s)"
  by (simp add: strip_png_def)

lemma strip_png_has_png: "has_png s \<Longrightarrow> trimmed (strip_png s)"
  by (cases s) (simp_all add: strip_png_def)






lemma lookupMode_iff:
  "lookupMode (parseSearchTerm raw) \<longleftrightarrow> regex_match urlPattern (strip_png raw) \<noteq> None"
  by (cases "regex_match urlPattern (strip_png raw)")
    (auto simp: parseSearchTerm_unfold parse_prefixes_fields)

lemma lookupMode_term:
  assumes "lookupMode (parseSearchTerm raw)"
  shows "searchTerm (parseSearchTerm raw) \<noteq> [] \<and> list_all is_digit (searchTerm (parseSearchTerm raw))"
proof -
  have "\<exists>u d. regex_match urlPattern (strip_png raw) = Some (u, d)"
    using assms lookupMode_iff[of raw] by (cases "regex_match urlPattern (strip_png raw)") auto
  then obtain u d where m: "regex_match urlPattern (strip_png raw) = Some (u, d)" by blast
  then have "searchTerm (parseSearchTerm raw) = d" by (simp add: parseSearchTerm_unfold)
  then show ?thesis using regex_match_url_digits[OF m] by simp
qed


lemma parse_term_cases:
  "(lookupMode (parseSearchTerm raw) \<and> list_all is_digit (searchTerm (parseSearchTerm raw))) \<or>
   (sublist (searchTerm (parseSearchTerm raw)) (strip_png (strip_png raw)) \<and>
    (searchTerm (parseSearchTerm raw) = strip_png (strip_png raw) \<or> trimmed (searchTerm (parseSearchTerm raw))))"
proof (cases "lookupMode (parseSearchTerm raw)")
  case True then show ?thesis using lookupMode_term[of raw] by simp
next
  case False
  then have n: "regex_match urlPattern (strip_png raw) = None"
    using lookupMode_iff[of raw] by blast
  show ?thesis
  proof (cases "strip_png (strip_png raw) = []")
    case True then show ?thesis by (simp add: parseSearchTerm_unfold n)
  next
    case False
    then have "parseSearchTerm raw = parse_prefixes (has_png raw) (strip_png (strip_png raw))"
      by (simp add: parseSearchTerm_unfold n)
    then show ?thesis using parse_prefixes_term by simp
  qed
qed


section \<open>Claims about the resize primitive\<close>

text \<open>
  Claim C1, as amended. \<^verbatim>\<open>fixArtworkUrl\<close> without the PNG flag always returns a text that
  ends in \<^verbatim>\<open>.jpg\<close>. When the URL is split at its first slash-anchored size token, the
  result is the URL with that token replaced by \<^verbatim>\<open>/{size}x{size}-999\<close>, and \<^verbatim>\<open>.jpg\<close> is
  appended exactly when the URL does not already end in \<^verbatim>\<open>.jpg\<close>. A URL that ends in
  another image extension (\<^verbatim>\<open>.png\<close>, \<^verbatim>\<open>.webp\<close>, \<^verbatim>\<open>.tif\<close>) therefore gets \<^verbatim>\<open>.jpg\<close>
  appended after that extension.
\<close>

theorem fixArtworkUrl_jpg_extension:
  "endsWith (fixArtworkUrl False url sz) ''.jpg'' \<and>
   (\<not> regex_test size_token pre \<and> digits w \<and> digits h \<and>
    (b = ''bb'' \<or> (b = [] \<and> \<not> continues_token post))
     \<longrightarrow> fixArtworkUrl False (pre @ ''/'' @ w @ ''x'' @ h @ b @ post) sz
         = pre @ ''/'' @ dec sz @ ''x'' @ dec sz @ ''-999'' @ post
           @ (if endsWith (pre @ ''/'' @ w @ ''x'' @ h @ b @ post) ''.jpg'' then [] else ''.jpg'')) \<and>
   (endsWith url ''.png'' \<longrightarrow> endsWith (fixArtworkUrl False url sz) ''.png.jpg'') \<and>
   (endsWith url ''.webp'' \<longrightarrow> endsWith (fixArtworkUrl False url sz) ''.webp.jpg'') \<and>
   (endsWith url ''.tif'' \<longrightarrow> endsWith (fixArtworkUrl False url sz) ''.tif.jpg'')"
proof (intro conjI impI)
  show "endsWith (fixArtworkUrl False url sz) ''.jpg''"
    using fixArtworkUrl_stem[of False url sz] by simp
next
  assume "\<not> regex_test size_token pre \<and> digits w \<and> digits h \<and>
    (b = ''bb'' \<or> (b = [] \<and> \<not> continues_token post))"
  then show "fixArtworkUrl False (pre @ ''/'' @ w @ ''x'' @ h @ b @ post) sz
         = pre @ ''/'' @ dec sz @ ''x'' @ dec sz @ ''-999'' @ post
           @ (if endsWith (pre @ ''/'' @ w @ ''x'' @ h @ b @ post) ''.jpg'' then [] else ''.jpg'')"
    using fixArtworkUrl_at_first_token[of pre w h b post sz] by blast
next
  assume "endsWith url ''.png''"
  then show "endsWith (fixArtworkUrl False url sz) ''.png.jpg''"
    using fixArtworkUrl_other_ext[of "''png''" url sz] by simp
next
  assume "endsWith url ''.webp''"
  then show "endsWith (fixArtworkUrl False url sz) ''.webp.jpg''"
    by (rule fixArtworkUrl_webp)
next
  assume "endsWith url ''.tif''"
  then show "endsWith (fixArtworkUrl False url sz) ''.tif.jpg''"
    using fixArtworkUrl_other_ext[of "''tif''" url sz] by simp
qed

theorem fixArtworkUrl_jpg_extension_witness:
  "(\<not> regex_test size_token ''https://a.b/3d'' \<and> digits ''100'' \<and>
    endsWith ''https://a.b/3d/100x100bb.png'' ''.png'') \<and>
   fixArtworkUrl False ''https://a.b/3d/100x100bb.png'' 600 = ''https://a.b/3d/600x600-999.png.jpg'' \<and>
   endsWith (fixArtworkUrl False ''https://a.b/3d/100x100bb.png'' 600) ''.png.jpg''"
proof -
  have h: "\<not> regex_test size_token ''https://a.b/3d'' \<and> digits ''100'' \<and>
    endsWith ''https://a.b/3d/100x100bb.png'' ''.png''"
    by (simp add: size_token_def digits_def is_digit_def endsWith_def)
  have e: "\<not> endsWith ''https://a.b/3d/100x100bb.png'' ''.jpg''"
    by (simp add: endsWith_def)
  show ?thesis
    using h e
      fixArtworkUrl_jpg_extension[of "''https://a.b/3d/100x100bb.png''" 600 "''https://a.b/3d''"
        "''100''" "''100''" "''bb''" "''.png''"]
    by (simp add: dec_sizes endsWith_def)
qed

text \<open>
  Claim C1 as stated says that no \<^verbatim>\<open>.jpg\<close> is appended to a URL that already ends in
  \<^verbatim>\<open>.png\<close>. The code tests for \<^verbatim>\<open>.jpg\<close> only.
\<close>

theorem fixArtworkUrl_png_counterexample:
  "endsWith ''https://a.b/3d/100x100bb.png'' ''.png'' \<and>
   fixArtworkUrl False ''https://a.b/3d/100x100bb.png'' 600 = ''https://a.b/3d/600x600-999.png.jpg''"
  by (simp add: fixArtworkUrl_def size_token_def size_replacement_def dec_sizes endsWith_def
      is_digit_def)

text \<open>
  Claim C10. Only the first slash-anchored size token is rewritten: when no such token
  begins in \<open>pre\<close> and a token follows it, the result is \<open>pre\<close>, the new token, and the
  rest \<open>post\<close> as it was, whatever tokens it holds; only a final \<^verbatim>\<open>.jpg\<close> of the whole URL
  is normalised. When the URL has no slash-anchored token at all (its \<^verbatim>\<open>WxH\<close> texts, if
  any, do not follow a slash), nothing is replaced.
\<close>

theorem fixArtworkUrl_first_slash_token_only:
  "(\<not> regex_test size_token pre \<and> digits w \<and> digits h \<and>
    (b = ''bb'' \<or> (b = [] \<and> \<not> continues_token post))
     \<longrightarrow> fixArtworkUrl png (pre @ ''/'' @ w @ ''x'' @ h @ b @ post) sz
         = pre @ ''/'' @ dec sz @ ''x'' @ dec sz @ ''-999'' @ drop_jpg post
           @ (if png then ''.png'' else ''.jpg'')) \<and>
   (\<not> regex_test size_token url
     \<longrightarrow> fixArtworkUrl png url sz = drop_jpg url @ (if png then ''.png'' else ''.jpg''))"
proof (intro conjI impI)
  assume a: "\<not> regex_test size_token pre \<and> digits w \<and> digits h \<and>
    (b = ''bb'' \<or> (b = [] \<and> \<not> continues_token post))"
  have "replace_first size_token (\<lambda>_. size_replacement sz) (pre @ ''/'' @ w @ ''x'' @ h @ b @ post)
         = pre @ size_replacement sz @ post"
    using a resize_first_token[of pre w h b post "size_replacement sz"] by simp
  moreover have "drop_jpg (pre @ size_replacement sz @ post) = pre @ size_replacement sz @ drop_jpg post"
    by (rule drop_jpg_append) (simp_all add: last_size_replacement)
  ultimately show "fixArtworkUrl png (pre @ ''/'' @ w @ ''x'' @ h @ b @ post) sz
         = pre @ ''/'' @ dec sz @ ''x'' @ dec sz @ ''-999'' @ drop_jpg post
           @ (if png then ''.png'' else ''.jpg'')"
    by (simp add: fixArtworkUrl_stem size_replacement_def)
next
  assume "\<not> regex_test size_token url"
  then show "fixArtworkUrl png url sz = drop_jpg url @ (if png then ''.png'' else ''.jpg'')"
    by (simp add: fixArtworkUrl_stem replace_first_no_match)
qed

theorem fixArtworkUrl_first_slash_token_only_witness:
  "(\<not> regex_test size_token ''https://a.b/3d'' \<and> digits ''100'' \<and>
    \<not> regex_test size_token ''cover100x100bb.png'') \<and>
   fixArtworkUrl False ''https://a.b/3d/100x100bb.jpg/200x200bb.jpg'' 600
     = ''https://a.b/3d/600x600-999.jpg/200x200bb.jpg'' \<and>
   fixArtworkUrl True ''cover100x100bb.png'' 600 = ''cover100x100bb.png.png''"
proof -
  have h: "\<not> regex_test size_token ''https://a.b/3d'' \<and> digits ''100'' \<and>
    \<not> regex_test size_token ''cover100x100bb.png''"
    by (simp add: size_token_def digits_def is_digit_def)
  have d: "drop_jpg ''.jpg/200x200bb.jpg'' = ''.jpg/200x200bb''"
    "drop_jpg ''cover100x100bb.png'' = ''cover100x100bb.png''"
    by (simp_all add: drop_jpg_def endsWith_def)
  show ?thesis
    using h
      fixArtworkUrl_first_slash_token_only[of "''https://a.b/3d''" "''100''" "''100''" "''bb''"
        "''.jpg/200x200bb.jpg''" False 600 "''cover100x100bb.png''"]
      fixArtworkUrl_first_slash_token_only[of "''https://a.b/3d''" "''100''" "''100''" "''bb''"
        "''.jpg/200x200bb.jpg''" True 600 "''cover100x100bb.png''"]
    by (simp add: dec_sizes d)
qed

section \<open>Claims about the parser\<close>

lemma strip_png_twice_cases:
  "strip_png (strip_png raw) = raw \<or> trimmed (strip_png (strip_png raw))"
  using strip_png_cases[of raw] strip_png_cases[of "strip_png raw"] strip_png_trimmed[of "strip_png raw"]
  by auto






text \<open>
  Claim C4. The query \<^verbatim>\<open>uk: artist: Coldplay .png\<close> parses to the country \<^verbatim>\<open>gb\<close>, the
  attribute \<^verbatim>\<open>artistTerm\<close>, the entity \<^verbatim>\<open>album\<close>, the term \<^verbatim>\<open>Coldplay\<close> and the PNG
  format.
\<close>

theorem parse_uk_artist_coldplay_png:
  "parseSearchTerm ''uk: artist: Coldplay .png'' =
     \<lparr>searchTerm = ''Coldplay'', entity = Album, countryCode = ''gb'', usePng = True,
      attribute = ArtistTerm, lookupMode = False\<rparr>"
  by code_simp




text \<open>
  Claim C6, as amended. The returned term has no white space at its ends, or it is the raw
  text unchanged (nothing was removed from it); it is trimmed whenever the raw text is
  trimmed, as the submit handler makes it, or carries the format token.
\<close>

theorem parse_term_trimmed:
  "(trimmed (searchTerm (parseSearchTerm raw)) \<or> searchTerm (parseSearchTerm raw) = raw) \<and>
   (trimmed raw \<or> has_png raw \<longrightarrow> trimmed (searchTerm (parseSearchTerm raw)))"
proof (intro conjI impI)
  show "trimmed (searchTerm (parseSearchTerm raw)) \<or> searchTerm (parseSearchTerm raw) = raw"
    using parse_term_cases[of raw] strip_png_twice_cases[of raw] digits_trimmed by auto
next
  assume "trimmed raw \<or> has_png raw"
  then have "trimmed (strip_png raw)" using strip_png_trimmed strip_png_has_png by blast
  then have "trimmed (strip_png (strip_png raw))" by (rule strip_png_trimmed)
  then show "trimmed (searchTerm (parseSearchTerm raw))"
    using parse_term_cases[of raw] digits_trimmed by auto
qed

theorem parse_term_trimmed_witness:
  "has_png ''a .png'' \<and> trimmed (searchTerm (parseSearchTerm ''a .png''))"
proof -
  have h: "has_png ''a .png''" by code_simp
  show ?thesis using h parse_term_trimmed[of "''a .png''"] by blast
qed

text \<open>
  Claim C6 as stated includes the case where no format token and no prefix matched. There
  the code returns the raw text as it is.
\<close>

theorem untrimmed_term_counterexample:
  "searchTerm (parseSearchTerm ''  hello '') = ''  hello '' \<and> \<not> trimmed ''  hello ''"
  by code_simp




section \<open>Claims about the links of a result\<close>

lemma regex_test_literal: "regex_test (literal p) s = includes_str s p"
  by (induction s) (auto simp: literal_def)

lemma prefix_slash_boundary:
  assumes "CHR ''/'' \<notin> set p"
  shows "prefix p (t @ CHR ''/'' # r) \<longleftrightarrow> prefix p t"
proof
  assume "prefix p t" then show "prefix p (t @ CHR ''/'' # r)" by (rule prefix_prefix)
next
  assume "prefix p (t @ CHR ''/'' # r)"
  then have "prefix p t \<or> (\<exists>us. p = t @ us \<and> prefix us (CHR ''/'' # r))"
    by (simp only: prefix_append)
  then show "prefix p t"
  proof
    assume "\<exists>us. p = t @ us \<and> prefix us (CHR ''/'' # r)"
    then obtain us where us: "p = t @ us" "prefix us (CHR ''/'' # r)" by blast
    show ?thesis
    proof (cases us)
      case Nil then show ?thesis using us by simp
    next
      case (Cons a us')
      then have "a = CHR ''/''" using us(2) by simp
      then show ?thesis using assms us(1) Cons by simp
    qed
  qed
qed

lemma replace_literal_after_slash:
  assumes "\<not> includes_str pre p" "CHR ''/'' \<notin> set p" "p \<noteq> []"
  shows "replace_first (literal p) (\<lambda>_. q) (pre @ ''/'' @ p @ post) = pre @ ''/'' @ q @ post"
proof -
  have n: "\<forall>i\<le>length pre. literal p (drop i pre) = None"
    using assms(1) by (simp add: regex_test_literal[symmetric] regex_test_iff)
  have "\<forall>i<length (pre @ ''/''). literal p (drop i (pre @ ''/'') @ p @ post) = None"
  proof (intro allI impI)
    fix i assume i: "i < length (pre @ ''/'')"
    show "literal p (drop i (pre @ ''/'') @ p @ post) = None"
    proof (cases "i < length pre")
      case True
      then have "\<not> prefix p (drop i pre)" using n by (auto simp: literal_def split: if_splits)
      then have "\<not> prefix p (drop i pre @ CHR ''/'' # p @ post)"
        using assms(2) by (simp add: prefix_slash_boundary)
      then show ?thesis using True by (simp add: literal_def)
    next
      case False
      then have "i = length pre" using i by simp
      moreover have "\<not> prefix p (CHR ''/'' # p @ post)"
        using assms(2,3) by (cases p) auto
      ultimately show ?thesis by (simp add: literal_def)
    qed
  qed
  moreover have "literal p (p @ post) = Some (length p)" by (simp add: literal_def)
  ultimately have "replace_first (literal p) (\<lambda>_. q) ((pre @ ''/'') @ p @ post)
      = (pre @ ''/'') @ (\<lambda>_. q) (take (length p) (p @ post)) @ drop (length p) (p @ post)"
    by (rule replace_first_at)
  then show ?thesis by simp
qed

lemma drop_bb_jpg: "drop_bb ''bb.jpg'' = ''.jpg''"
  by (simp add: drop_bb_def image_exts_def endsWith_def)

lemma bb_before_ext_cases:
  assumes "bb_before_ext s \<noteq> None"
  shows "s = ''bb.jpg'' \<or> s = ''bb.png'' \<or> s = ''bb.webp'' \<or> s = ''bb.tif''"
proof -
  obtain e where "e \<in> set image_exts" "s = ''bb'' @ e"
    using assms unfolding bb_before_ext_def by (meson option.distinct(1))
  then show ?thesis unfolding image_exts_def by simp
qed

lemma bb_before_ext_jpg:
  "replace_first bb_before_ext drop_bb (x @ ''bb.jpg'') = x @ ''.jpg''"
proof -
  have "\<forall>i<length x. bb_before_ext (drop i x @ ''bb.jpg'') = None"
  proof (intro allI impI)
    fix i assume "i < length x"
    then obtain c t where t: "drop i x = c # t" by (cases "drop i x") auto
    let ?s = "(c # t) @ ''bb.jpg''"
    show "bb_before_ext (drop i x @ ''bb.jpg'') = None"
    proof (rule ccontr)
      assume "bb_before_ext (drop i x @ ''bb.jpg'') \<noteq> None"
      then have "?s = ''bb.jpg'' \<or> ?s = ''bb.png'' \<or> ?s = ''bb.webp'' \<or> ?s = ''bb.tif''"
        unfolding t by (rule bb_before_ext_cases)
      then show False
      proof (elim disjE)
        assume "?s = ''bb.jpg''"
        then have "length ?s = length ''bb.jpg''" by (rule arg_cong)
        then show False by simp
      next
        assume "?s = ''bb.png''"
        then have "length ?s = length ''bb.png''" by (rule arg_cong)
        then show False by simp
      next
        assume "?s = ''bb.webp''"
        then have "last ?s = last ''bb.webp''" by (rule arg_cong)
        then show False by simp
      next
        assume "?s = ''bb.tif''"
        then have "length ?s = length ''bb.tif''" by (rule arg_cong)
        then show False by simp
      qed
    qed
  qed
  moreover have "bb_before_ext ''bb.jpg'' = Some 6" by (simp add: bb_before_ext_def image_exts_def)
  ultimately have "replace_first bb_before_ext drop_bb (x @ ''bb.jpg'')
     = x @ drop_bb (take 6 ''bb.jpg'') @ drop 6 ''bb.jpg''"
    by (rule replace_first_at)
  then show ?thesis by (simp add: drop_bb_jpg)
qed

lemma movieHdUrl_well_formed:
  assumes "\<not> includes_str pre ''100x100''"
  shows "movieHdUrl png (pre @ ''/100x100bb.jpg'') = pre @ ''/10000x10000-999'' @ (if png then ''.png'' else ''.jpg'')"
proof -
  have 1: "replace_first (literal ''100x100'') (\<lambda>_. ''10000x10000-999'') (pre @ ''/100x100bb.jpg'')
        = (pre @ ''/10000x10000-999'') @ ''bb.jpg''"
    using replace_literal_after_slash[OF assms, of "''10000x10000-999''" "''bb.jpg''"] by simp
  have 2: "replace_first bb_before_ext drop_bb ((pre @ ''/10000x10000-999'') @ ''bb.jpg'')
        = (pre @ ''/10000x10000-999'') @ ''.jpg''"
    by (rule bb_before_ext_jpg)
  have e: "endsWith ((pre @ ''/10000x10000-999'') @ ''.jpg'') ''.jpg''"
    by (rule endsWith_append_same)
  have 3: "jpg_to_png ((pre @ ''/10000x10000-999'') @ ''.jpg'') = (pre @ ''/10000x10000-999'') @ ''.png''"
    by (rule jpg_to_png_stem)
  show ?thesis
    unfolding movieHdUrl_def Let_def 1 2 using e 3 by (cases png) simp_all
qed

text \<open>
  Claim C7. For a film and for a television season \<^verbatim>\<open>displayResults\<close> offers one link, the
  maximum-resolution one, and the two branches of the source compute the same URL for every
  thumbnail (present or not) and either format. For a thumbnail of the usual shape the URL
  keeps its host and path: \<^verbatim>\<open>100x100\<close> becomes \<^verbatim>\<open>10000x10000-999\<close>, the \<^verbatim>\<open>bb\<close> before the
  extension goes, and the extension is \<^verbatim>\<open>.jpg\<close>, or \<^verbatim>\<open>.png\<close> on request.
\<close>

theorem movie_tv_same_single_link:
  "linksHtml Movie png url = [(''HD'', movieHdUrl png url)] \<and>
   linksHtml TvSeason png url = [(''HD'', tvHdUrl png url)] \<and>
   tvHdUrl png url = movieHdUrl png url \<and>
   displayResult TvSeason png r = displayResult Movie png r \<and>
   (\<not> includes_str pre ''100x100'' \<longrightarrow>
      movieHdUrl png (pre @ ''/100x100bb.jpg'')
        = pre @ ''/10000x10000-999'' @ (if png then ''.png'' else ''.jpg''))"
proof (intro conjI impI)
  show "linksHtml Movie png url = [(''HD'', movieHdUrl png url)]" by (simp add: linksHtml_def)
  show "linksHtml TvSeason png url = [(''HD'', tvHdUrl png url)]" by (simp add: linksHtml_def)
  show e: "tvHdUrl png url = movieHdUrl png url" for url by (simp add: tvHdUrl_def movieHdUrl_def)
  show "displayResult TvSeason png r = displayResult Movie png r"
    by (cases r) (simp_all add: displayResult_def linksHtml_def e)
next
  assume "\<not> includes_str pre ''100x100''"
  then show "movieHdUrl png (pre @ ''/100x100bb.jpg'')
        = pre @ ''/10000x10000-999'' @ (if png then ''.png'' else ''.jpg'')"
    by (rule movieHdUrl_well_formed)
qed

theorem movie_tv_same_single_link_witness:
  "\<not> includes_str ''https://h.mzstatic.com/image/thumb/v4/p.lsr'' ''100x100'' \<and>
   movieHdUrl True ''https://h.mzstatic.com/image/thumb/v4/p.lsr/100x100bb.jpg''
     = ''https://h.mzstatic.com/image/thumb/v4/p.lsr/10000x10000-999.png''"
proof -
  have h: "\<not> includes_str ''https://h.mzstatic.com/image/thumb/v4/p.lsr'' ''100x100''" by simp
  show ?thesis
    using h movie_tv_same_single_link[of True _ _ "''https://h.mzstatic.com/image/thumb/v4/p.lsr''"]
    by simp
qed

end
